theory Spec2Isabelle
  imports Complex_Main
begin

section \<open>Graph construction over clusters: mlreco/utils/gnn/network.py\<close>

text \<open>
  Arrays are lists, two-dimensional arrays are lists of rows.  Cluster and voxel indices are
  natural numbers, batch ids and external cluster ids are integers, coordinates and distances
  are real numbers (the exact values of which the floating-point numbers of the source are
  roundings).  Indexing follows NumPy: an index out of range raises IndexError.  Every
  exception of the source is a value of the type \<open>error\<close>, returned on the left of a sum.
  A source name that starts with an underscore carries the prefix \<open>u_\<close> here:
  \<open>u_get_fragment_edges\<close> is \<open>_get_fragment_edges\<close>.
\<close>

datatype error =
    ValueError string
  | IndexError
  | AssertionError
  | TypeError string
  | UninitialisedRead
  | ExternalError

type_synonym 'a res = "error + 'a"

definition bindE :: "'a res \<Rightarrow> ('a \<Rightarrow> 'b res) \<Rightarrow> 'b res" where
  "bindE m f = (case m of Inl e \<Rightarrow> Inl e | Inr x \<Rightarrow> f x)"

fun mapE :: "('a \<Rightarrow> 'b res) \<Rightarrow> 'a list \<Rightarrow> 'b list res" where
  "mapE f [] = Inr []"
| "mapE f (x # xs) = bindE (f x) (\<lambda>y. bindE (mapE f xs) (\<lambda>ys. Inr (y # ys)))"

fun foldE :: "('s \<Rightarrow> 'a \<Rightarrow> 's res) \<Rightarrow> 's \<Rightarrow> 'a list \<Rightarrow> 's res" where
  "foldE f s [] = Inr s"
| "foldE f s (x # xs) = bindE (f s x) (\<lambda>s'. foldE f s' xs)"

definition getitem :: "'a list \<Rightarrow> nat \<Rightarrow> 'a res" where
  "getitem xs i = (if i < length xs then Inr (xs ! i) else Inl IndexError)"

text \<open>\<open>np.where(xs == v)[0]\<close>: the positions holding \<open>v\<close>, in increasing order.\<close>

definition np_where_eq :: "'a list \<Rightarrow> 'a \<Rightarrow> nat list" where
  "np_where_eq xs v = filter (\<lambda>i. xs ! i = v) [0..<length xs]"

text \<open>\<open>np.unique\<close>: the distinct values, sorted.\<close>

definition np_unique :: "int list \<Rightarrow> int list" where
  "np_unique xs = sort (remdups xs)"

text \<open>
  An array made by \<open>np.empty\<close> holds unspecified memory until it is written.  A cell is
  \<open>None\<close> until its first write; reading the finished array fails with
  \<open>UninitialisedRead\<close> where the source would deliver whatever the memory held.
\<close>

definition np_empty :: "nat \<Rightarrow> 'a option list" where
  "np_empty n = replicate n None"

definition setitem :: "'a option list \<Rightarrow> nat \<Rightarrow> 'a \<Rightarrow> 'a option list res" where
  "setitem xs k v = (if k < length xs then Inr (xs[k := Some v]) else Inl IndexError)"

fun contents :: "'a option list \<Rightarrow> 'a list res" where
  "contents [] = Inr []"
| "contents (None # xs) = Inl UninitialisedRead"
| "contents (Some x # xs) = bindE (contents xs) (\<lambda>ys. Inr (x # ys))"

text \<open>
  An edge array \<open>ret\<close> of shape (E,2) is a list of pairs.  \<open>ret[:,::-1]\<close> swaps the two
  columns, \<open>ret.T\<close> is the (2,E) incidence matrix with the sources in its first row and the
  targets in its second.  \<open>edges_of\<close> reads the columns of a (2,E) matrix back.
\<close>

definition reversed_cols :: "('a \<times> 'a) list \<Rightarrow> ('a \<times> 'a) list" where
  "reversed_cols ret = map (\<lambda>e. (snd e, fst e)) ret"

definition transposed :: "('a \<times> 'a) list \<Rightarrow> 'a list list" where
  "transposed ret = [map fst ret, map snd ret]"

fun edges_of :: "'a list list \<Rightarrow> ('a \<times> 'a) list" where
  "edges_of [r0, r1] = zip r0 r1"
| "edges_of _ = []"

subsection \<open>loop_graph\<close>

text \<open>
  \<^verbatim>\<open>ret = np.empty((2,n)); for k in range(n): ret[k] = [k,k]; return ret.T\<close>

  \<open>ret\<close> has two rows of \<open>n\<close> cells.  \<open>ret[k] = [k,k]\<close> writes a sequence of length 2
  into row \<open>k\<close>: the row must exist (\<open>k < 2\<close>) and the shape (2,) must broadcast to
  (n,), which it does only for \<open>n = 2\<close>.
\<close>

definition set_row :: "'a option list list \<Rightarrow> nat \<Rightarrow> 'a list \<Rightarrow> 'a option list list res" where
  "set_row m k vs =
     (if \<not> k < length m then Inl IndexError
      else if length vs = length (m ! k) then Inr (m[k := map Some vs])
      else if length vs = 1 then Inr (m[k := replicate (length (m ! k)) (Some (hd vs))])
      else Inl (ValueError ''could not broadcast input array''))"

text \<open>The transpose of a matrix with \<open>c\<close> columns: row \<open>j\<close> is column \<open>j\<close>.\<close>

definition transpose_cols :: "nat \<Rightarrow> 'a list list \<Rightarrow> 'a list list" where
  "transpose_cols c m = map (\<lambda>j. map (\<lambda>row. row ! j) m) [0..<c]"

definition loop_graph :: "nat \<Rightarrow> nat list list res" where
  "loop_graph n =
     bindE (foldE (\<lambda>ret k. set_row ret k [k, k]) (replicate 2 (np_empty n)) [0..<n])
       (\<lambda>ret. bindE (mapE contents ret) (\<lambda>m. Inr (transpose_cols n m)))"

subsection \<open>Pruning and symmetrization shared by the strategies\<close>

text \<open>
  The block
  \<^verbatim>\<open>if max_dist > -1: assert dist_mat is not None; dists[k] = dist_mat[e[0],e[1]]; ret = ret[dists < max_dist]\<close>
  is repeated verbatim in complete_graph, delaunay_graph, mst_graph and bipartite_graph.
\<close>

definition edge_dists :: "real list list \<Rightarrow> (nat \<times> nat) list \<Rightarrow> real list res" where
  "edge_dists dist_mat ret =
     mapE (\<lambda>e. bindE (getitem dist_mat (fst e)) (\<lambda>row. getitem row (snd e))) ret"

definition prune :: "real list list option \<Rightarrow> real \<Rightarrow> (nat \<times> nat) list \<Rightarrow> (nat \<times> nat) list res" where
  "prune dist_mat max_dist ret =
     (if max_dist > - 1 then
        (case dist_mat of
           None \<Rightarrow> Inl AssertionError
         | Some d \<Rightarrow>
             bindE (edge_dists d ret)
               (\<lambda>dists. Inr (map fst (filter (\<lambda>p. snd p < max_dist) (zip ret dists)))))
      else Inr ret)"

text \<open>\<open>np.vstack((ret, ret[:,::-1]))\<close>\<close>

definition add_reciprocal :: "('a \<times> 'a) list \<Rightarrow> ('a \<times> 'a) list" where
  "add_reciprocal ret = ret @ reversed_cols ret"

subsection \<open>complete_graph\<close>

text \<open>\<open>np.sum(batch_ids == b)\<close>\<close>

definition batch_size :: "int list \<Rightarrow> int \<Rightarrow> nat" where
  "batch_size batch_ids b = length (filter (\<lambda>x. x = b) batch_ids)"

text \<open>\<open>int(x / 2)\<close> on an integer \<open>x\<close>: true division, then truncation towards zero.\<close>

definition int_half :: "int \<Rightarrow> int" where
  "int_half x = (if 0 \<le> x then x div 2 else - ((- x) div 2))"

definition edge_count :: "int list \<Rightarrow> int" where
  "edge_count batch_ids =
     int_half (foldl (\<lambda>c b. c + (int (batch_size batch_ids b))\<^sup>2) 0 (np_unique batch_ids)
               - int (length batch_ids))"

text \<open>The pairs \<open>(i, j)\<close> visited by \<open>for i in range(n): for j in range(i+1, n)\<close>.\<close>

definition upper_pairs :: "nat \<Rightarrow> (nat \<times> nat) list" where
  "upper_pairs n = concat (map (\<lambda>i. map (Pair i) [i + 1..<n]) [0..<n])"

definition fill_step ::
  "int list \<Rightarrow> (nat \<times> nat) option list \<times> nat \<Rightarrow> nat \<times> nat \<Rightarrow> ((nat \<times> nat) option list \<times> nat) res" where
  "fill_step batch_ids st e =
     (if batch_ids ! fst e = batch_ids ! snd e
      then bindE (setitem (fst st) (snd st) e) (\<lambda>ret. Inr (ret, snd st + 1))
      else Inr st)"

definition complete_graph :: "int list \<Rightarrow> real list list option \<Rightarrow> real \<Rightarrow> nat list list res" where
  "complete_graph batch_ids dist_mat max_dist =
     (let ec = edge_count batch_ids in
      if ec = 0 then Inr [[], []]
      else if ec < 0 then Inl (ValueError ''negative dimensions are not allowed'')
      else
        bindE (foldE (fill_step batch_ids) (np_empty (nat ec), 0) (upper_pairs (length batch_ids)))
          (\<lambda>st. bindE (contents (fst st))
            (\<lambda>ret. bindE (prune dist_mat max_dist ret)
              (\<lambda>ret. Inr (transposed (add_reciprocal ret))))))"

subsection \<open>bipartite_graph\<close>

text \<open>\<open>np.where(primaries)[0]\<close> and \<open>np.where(~primaries)[0]\<close>\<close>

definition np_where :: "bool list \<Rightarrow> nat list" where
  "np_where flags = filter (\<lambda>i. flags ! i) [0..<length flags]"

definition bipartite_pairs :: "int list \<Rightarrow> bool list \<Rightarrow> (nat \<times> nat) list res" where
  "bipartite_pairs batch_ids primaries =
     foldE (\<lambda>ret e.
              bindE (getitem batch_ids (fst e)) (\<lambda>bi.
              bindE (getitem batch_ids (snd e)) (\<lambda>bj.
              Inr (if bi = bj then ret @ [e] else ret))))
       [] (List.product (np_where primaries) (np_where (map Not primaries)))"

definition bipartite_graph ::
  "int list \<Rightarrow> bool list \<Rightarrow> real list list option \<Rightarrow> real \<Rightarrow> bool \<Rightarrow> string \<Rightarrow> nat list list res" where
  "bipartite_graph batch_ids primaries dist_mat max_dist directed directed_to =
     bindE (bipartite_pairs batch_ids primaries)
       (\<lambda>ret. bindE (prune dist_mat max_dist ret)
         (\<lambda>ret.
            if directed then
              (if directed_to = ''primary'' then Inr (transposed (reversed_cols ret))
               else if directed_to \<noteq> ''secondary''
                    then Inl (ValueError ''Graph orientation not recognized'')
               else Inr (transposed ret))
            else Inr (transposed (add_reciprocal ret))))"

subsection \<open>Helpers imported from mlreco.utils.numba\<close>

text \<open>Rows of a coordinate array selected by a list of indices: \<open>data[idx]\<close>.\<close>

definition take_rows :: "'a list \<Rightarrow> nat list \<Rightarrow> 'a list res" where
  "take_rows data idx = mapE (getitem data) idx"

text \<open>
  Modelled from the spec: \<open>submatrix_nb\<close> is imported from mlreco.utils.numba, which is not
  part of the sources at hand.  The spec calls its result the sub-block of the distance
  matrix restricted to a batch's clusters: the entries at the given rows and columns.
\<close>

definition submatrix_nb :: "'a list list \<Rightarrow> nat list \<Rightarrow> nat list \<Rightarrow> 'a list list res" where
  "submatrix_nb m rows cols =
     mapE (\<lambda>i. bindE (getitem m i) (\<lambda>row. mapE (getitem row) cols)) rows"

text \<open>
  Modelled from the spec: \<open>cdist_nb\<close> is imported from mlreco.utils.numba as well.  The spec
  describes it as the brute-force evaluation of the Euclidean distance between every point
  of one set and every point of the other; entry \<open>(a, b)\<close> is the distance between point
  \<open>a\<close> of the first set and point \<open>b\<close> of the second.
\<close>

definition norm2 :: "real list \<Rightarrow> real" where
  "norm2 v = sqrt (sum_list (map (\<lambda>x. x\<^sup>2) v))"

definition vsub :: "real list \<Rightarrow> real list \<Rightarrow> real list" where
  "vsub a b = map (\<lambda>p. fst p - snd p) (zip a b)"

definition cdist_nb :: "real list list \<Rightarrow> real list list \<Rightarrow> real list list" where
  "cdist_nb x1 x2 = map (\<lambda>a. map (\<lambda>b. norm2 (vsub a b)) x2) x1"

text \<open>\<open>np.min\<close> of an array; it raises on an array without elements.\<close>

definition np_min :: "real list \<Rightarrow> real res" where
  "np_min xs = (if xs = [] then Inl (ValueError ''zero-size array'') else Inr (Min (set xs)))"

text \<open>
  \<open>np.argsort\<close>: the positions of the array ordered by their values.  NumPy leaves the
  order of equal values to its sorting routine; here equal values keep their positions'
  order.  \<open>np.triu\<close> clears the entries below the diagonal.
\<close>

definition np_argsort :: "real list \<Rightarrow> nat list" where
  "np_argsort xs = sort_key (\<lambda>i. xs ! i) [0..<length xs]"

definition np_triu :: "real list list \<Rightarrow> real list list" where
  "np_triu m =
     map (\<lambda>i. map (\<lambda>j. if i \<le> j then m ! i ! j else 0) [0..<length (m ! i)]) [0..<length m]"

subsection \<open>delaunay_graph\<close>

text \<open>
  The triangulation is computed by SciPy (\<open>Delaunay(data[mask,:3], qhull_options='QJ').simplices\<close>);
  it is a parameter \<open>delaunay\<close> here, from the points to the list of simplices or an error.
  \<open>mask\<close> lists the voxels of the batch's clusters one cluster after the other, and
  \<open>labels\<close> gives for each of them the position of its cluster in \<open>clust_ids\<close>: the
  slices \<open>limits[i]:limits[i+1]\<close> written by the source tile both arrays.
\<close>

definition cluster_labels :: "nat list list \<Rightarrow> nat list" where
  "cluster_labels members =
     concat (map (\<lambda>i. replicate (length (members ! i)) i) [0..<length members])"

text \<open>\<open>for s in tri: for i in s: for j in s: if labels[j] > labels[i]: adj_mat[labels[i],labels[j]] = True\<close>\<close>

definition adjacent_labels :: "nat list \<Rightarrow> nat list list \<Rightarrow> (nat \<times> nat) list res" where
  "adjacent_labels labels tri =
     foldE (\<lambda>adj p.
              bindE (getitem labels (snd p)) (\<lambda>lj.
              bindE (getitem labels (fst p)) (\<lambda>li.
              Inr (if lj > li then adj @ [(li, lj)] else adj))))
       [] (concat (map (\<lambda>s. List.product s s) tri))"

text \<open>\<open>np.where(adj_mat)\<close> on the square matrix of size \<open>m\<close>, in row-major order.\<close>

definition where_adjacent :: "nat \<Rightarrow> (nat \<times> nat) list \<Rightarrow> (nat \<times> nat) list" where
  "where_adjacent m adj = filter (\<lambda>p. p \<in> set adj) (List.product [0..<m] [0..<m])"

definition delaunay_batch ::
  "(real list list \<Rightarrow> nat list list res) \<Rightarrow> real list list \<Rightarrow> nat list list \<Rightarrow> int list \<Rightarrow> int
     \<Rightarrow> (nat \<times> nat) list res" where
  "delaunay_batch delaunay data clusts batch_ids b =
     (let clust_ids = np_where_eq batch_ids b in
      bindE (take_rows clusts clust_ids) (\<lambda>members.
      let mask = concat members; labels = cluster_labels members in
      bindE (take_rows data mask) (\<lambda>rows.
      bindE (delaunay (map (take 3) rows)) (\<lambda>tri.
      bindE (adjacent_labels labels tri) (\<lambda>adj.
      Inr (map (\<lambda>p. (clust_ids ! fst p, clust_ids ! snd p))
             (where_adjacent (length clust_ids) adj)))))))"

text \<open>The loop over the batches shared by the strategies: \<open>ret = np.vstack((ret, edges))\<close>.\<close>

definition per_batch :: "(int \<Rightarrow> (nat \<times> nat) list res) \<Rightarrow> int list \<Rightarrow> (nat \<times> nat) list res" where
  "per_batch edges_in batch_ids =
     foldE (\<lambda>ret b. bindE (edges_in b) (\<lambda>edges. Inr (ret @ edges))) [] (np_unique batch_ids)"

definition delaunay_graph ::
  "(real list list \<Rightarrow> nat list list res) \<Rightarrow> real list list \<Rightarrow> nat list list \<Rightarrow> int list
     \<Rightarrow> real list list option \<Rightarrow> real \<Rightarrow> nat list list res" where
  "delaunay_graph delaunay data clusts batch_ids dist_mat max_dist =
     bindE (per_batch (delaunay_batch delaunay data clusts batch_ids) batch_ids)
       (\<lambda>ret. bindE (prune dist_mat max_dist ret)
         (\<lambda>ret. Inr (transposed (add_reciprocal ret))))"

subsection \<open>mst_graph\<close>

text \<open>
  The spanning tree is computed by SciPy (\<open>minimum_spanning_tree(submat).toarray()\<close>); it is
  a parameter \<open>mst\<close> here, from the upper-triangular block to a matrix or an error.
  \<open>np.where(mst_mat > 0.)\<close> lists the positive entries in row-major order.
\<close>

definition where_positive :: "real list list \<Rightarrow> (nat \<times> nat) list" where
  "where_positive m =
     concat (map (\<lambda>i. map (Pair i) (filter (\<lambda>j. m ! i ! j > 0) [0..<length (m ! i)]))
               [0..<length m])"

definition mst_batch ::
  "(real list list \<Rightarrow> real list list res) \<Rightarrow> int list \<Rightarrow> real list list option \<Rightarrow> int
     \<Rightarrow> (nat \<times> nat) list res" where
  "mst_batch mst batch_ids dist_mat b =
     (let clust_ids = np_where_eq batch_ids b in
      if length clust_ids > 1 then
        (case dist_mat of
           None \<Rightarrow> Inl (TypeError ''dist_mat is None'')
         | Some d \<Rightarrow>
             bindE (submatrix_nb d clust_ids clust_ids) (\<lambda>sub.
             bindE (mst (np_triu sub)) (\<lambda>mst_mat.
             mapE (\<lambda>p. bindE (getitem clust_ids (fst p)) (\<lambda>i.
                        bindE (getitem clust_ids (snd p)) (\<lambda>j. Inr (i, j))))
               (where_positive mst_mat))))
      else Inr [])"

definition mst_graph ::
  "(real list list \<Rightarrow> real list list res) \<Rightarrow> int list \<Rightarrow> real list list option \<Rightarrow> real
     \<Rightarrow> nat list list res" where
  "mst_graph mst batch_ids dist_mat max_dist =
     bindE (per_batch (mst_batch mst batch_ids dist_mat) batch_ids)
       (\<lambda>ret. bindE (prune dist_mat max_dist ret)
         (\<lambda>ret. Inr (transposed (add_reciprocal ret))))"

subsection \<open>knn_graph\<close>

text \<open>
  For row \<open>i\<close> of the batch's block: \<open>idxs = np.argsort(submat[i])[1:subk]\<close>, then
  \<open>edges = np.empty((subk-1,2))\<close> is filled from \<open>enumerate(np.sort(idxs))\<close> and appended
  when it has rows.  \<open>subk = min(k+1, len(clust_ids))\<close> is an integer: below 1 the
  allocation has a negative dimension and raises, whatever the slice was; from 1 on the
  slice \<open>[1:subk]\<close> holds the \<open>subk-1\<close> positions after the first.
\<close>

definition knn_row :: "nat list \<Rightarrow> int \<Rightarrow> real list list \<Rightarrow> nat \<Rightarrow> (nat \<times> nat) list res" where
  "knn_row clust_ids subk submat i =
     (if subk - 1 < 0 then Inl (ValueError ''negative dimensions are not allowed'')
      else
        (let idxs = take (nat (subk - 1)) (drop 1 (np_argsort (submat ! i))) in
         bindE (foldE (\<lambda>edges p.
                  bindE (getitem clust_ids i) (\<lambda>ci.
                  bindE (getitem clust_ids (snd p)) (\<lambda>cj.
                  setitem edges (fst p) (ci, cj))))
                (np_empty (nat (subk - 1))) (zip [0..<length idxs] (sort idxs)))
           contents))"

definition knn_batch :: "int list \<Rightarrow> int \<Rightarrow> real list list option \<Rightarrow> int \<Rightarrow> (nat \<times> nat) list res" where
  "knn_batch batch_ids k dist_mat b =
     (let clust_ids = np_where_eq batch_ids b in
      if length clust_ids > 1 then
        (case dist_mat of
           None \<Rightarrow> Inl (TypeError ''dist_mat is None'')
         | Some d \<Rightarrow>
             bindE (submatrix_nb d clust_ids clust_ids) (\<lambda>submat.
             foldE (\<lambda>ret i. bindE (knn_row clust_ids (min (k + 1) (int (length clust_ids))) submat i)
                                (\<lambda>edges. Inr (ret @ edges)))
               [] [0..<length submat]))
      else Inr [])"

definition knn_graph :: "int list \<Rightarrow> int \<Rightarrow> real list list option \<Rightarrow> nat list list res" where
  "knn_graph batch_ids k dist_mat =
     bindE (per_batch (knn_batch batch_ids k dist_mat) batch_ids)
       (\<lambda>ret. Inr (transposed (add_reciprocal ret)))"

subsection \<open>_inter_cluster_distance\<close>

text \<open>
  \<^verbatim>\<open>
  dist_mat = np.zeros((C, C))
  for i in nb.prange(C):
      for j in range(C):
          if batch_ids[i] == batch_ids[j]:
              if i < j:   dist_mat[i,j] = np.min(cdist_nb(voxels[clusts[i]], voxels[clusts[j]]))
              elif i > j: dist_mat[i,j] = dist_mat[j,i]
  \<close>
  The function is compiled with \<open>parallel=True\<close> and its outer loop is a \<open>prange\<close>: the
  iterations are handed to threads and nothing orders one iteration after another.  The
  model takes the order in which the iterations take effect as its first argument; the
  increasing order \<open>[0..<C]\<close> is the run on a single thread.
\<close>

definition mat_set :: "'a list list \<Rightarrow> nat \<Rightarrow> nat \<Rightarrow> 'a \<Rightarrow> 'a list list" where
  "mat_set m i j v = m[i := (m ! i)[j := v]]"

definition icd_cell ::
  "real list list \<Rightarrow> nat list list \<Rightarrow> int list \<Rightarrow> nat \<Rightarrow> real list list \<Rightarrow> nat \<Rightarrow> real list list res" where
  "icd_cell voxels clusts batch_ids i dist_mat j =
     (if batch_ids ! i = batch_ids ! j then
        (if i < j then
           bindE (getitem clusts i) (\<lambda>ci.
           bindE (take_rows voxels ci) (\<lambda>x1.
           bindE (getitem clusts j) (\<lambda>cj.
           bindE (take_rows voxels cj) (\<lambda>x2.
           bindE (np_min (concat (cdist_nb x1 x2))) (\<lambda>d.
           Inr (mat_set dist_mat i j d))))))
         else if i > j then Inr (mat_set dist_mat i j (dist_mat ! j ! i))
         else Inr dist_mat)
      else Inr dist_mat)"

definition icd_iteration ::
  "real list list \<Rightarrow> nat list list \<Rightarrow> int list \<Rightarrow> real list list \<Rightarrow> nat \<Rightarrow> real list list res" where
  "icd_iteration voxels clusts batch_ids dist_mat i =
     foldE (icd_cell voxels clusts batch_ids i) dist_mat [0..<length batch_ids]"

definition u_inter_cluster_distance ::
  "nat list \<Rightarrow> real list list \<Rightarrow> nat list list \<Rightarrow> int list \<Rightarrow> real list list res" where
  "u_inter_cluster_distance order voxels clusts batch_ids =
     foldE (icd_iteration voxels clusts batch_ids)
       (replicate (length batch_ids) (replicate (length batch_ids) 0)) order"

subsection \<open>_get_fragment_edges\<close>

text \<open>
  The edge list is folded from the left, each kept edge appended at the end
  (\<open>np.vstack((true_edges, [[n1[0], n2[0]]]))\<close>).  The positions found are stored as
  int64, like the ids they are compared with on a second application.
\<close>

definition fragment_step :: "int list \<Rightarrow> (int \<times> int) list \<Rightarrow> int \<times> int \<Rightarrow> (int \<times> int) list" where
  "fragment_step clust_ids true_edges e =
     (let n1 = np_where_eq clust_ids (fst e);
          n2 = np_where_eq clust_ids (snd e)
      in if n1 \<noteq> [] \<and> n2 \<noteq> []
         then true_edges @ [(int (hd n1), int (hd n2))]
         else true_edges)"

definition u_get_fragment_edges :: "(int \<times> int) list \<Rightarrow> int list \<Rightarrow> (int \<times> int) list" where
  "u_get_fragment_edges graph clust_ids = foldl (fragment_step clust_ids) [] graph"

text \<open>
  The id lists on which a second application of the mapping falls back on the first: each
  position that the mapping can produce is itself an id of the list, first found at that
  same position.  The identity list \<open>[0, ..., C-1]\<close> is one.
\<close>

definition fixed_ids :: "int list \<Rightarrow> bool" where
  "fixed_ids ids =
     (\<forall>a \<in> set ids. int (hd (np_where_eq ids a)) \<in> set ids \<and>
        hd (np_where_eq ids (int (hd (np_where_eq ids a)))) = hd (np_where_eq ids a))"

subsection \<open>Properties of incidence matrices\<close>

text \<open>Every edge between two different clusters comes with its reciprocal.\<close>

definition reciprocal :: "nat list list \<Rightarrow> bool" where
  "reciprocal M =
     (\<forall>i j. (i, j) \<in> set (edges_of M) \<longrightarrow> i \<noteq> j \<longrightarrow> (j, i) \<in> set (edges_of M))"

text \<open>An edge joins two clusters of the batch-id array that carry the same batch id.\<close>

definition same_batch :: "int list \<Rightarrow> nat \<times> nat \<Rightarrow> bool" where
  "same_batch batch_ids e =
     (fst e < length batch_ids \<and> snd e < length batch_ids \<and>
      batch_ids ! fst e = batch_ids ! snd e)"

definition within_batches :: "int list \<Rightarrow> nat list list \<Rightarrow> bool" where
  "within_batches batch_ids M = (\<forall>e \<in> set (edges_of M). same_batch batch_ids e)"

text \<open>Every edge joins a cluster to itself, hence to a cluster of the same batch id.\<close>

definition self_loops :: "int list \<Rightarrow> nat list list \<Rightarrow> bool" where
  "self_loops batch_ids M =
     (\<forall>e \<in> set (edges_of M). fst e = snd e \<and> batch_ids ! fst e = batch_ids ! snd e)"

subsection \<open>Counting the edges of the complete graph\<close>

text \<open>The test of the fill loop, \<open>batch_ids[i] == batch_ids[j]\<close>, on an edge.\<close>

abbreviation (input) equal_ids :: "int list \<Rightarrow> nat \<times> nat \<Rightarrow> bool" where
  "equal_ids batch_ids \<equiv> \<lambda>e. batch_ids ! fst e = batch_ids ! snd e"

text \<open>The edges of an incidence matrix that join two clusters of batch \<open>b\<close>.\<close>

definition batch_edges :: "int list \<Rightarrow> nat list list \<Rightarrow> int \<Rightarrow> (nat \<times> nat) list" where
  "batch_edges batch_ids M b =
     filter (\<lambda>e. batch_ids ! fst e = b \<and> batch_ids ! snd e = b) (edges_of M)"

subsection \<open>The distance matrix of a run on a single thread\<close>

text \<open>
  Inputs on which every read of \<open>_inter_cluster_distance\<close> succeeds: one cluster per
  batch id, no cluster empty, every voxel index within the coordinate array.  The matrix
  the documentation describes holds, at an off-diagonal entry of two clusters of one batch,
  the least distance between a voxel of the one and a voxel of the other, and 0 elsewhere.
\<close>

definition well_formed :: "real list list \<Rightarrow> nat list list \<Rightarrow> int list \<Rightarrow> bool" where
  "well_formed voxels clusts batch_ids =
     (length clusts = length batch_ids \<and>
      (\<forall>c \<in> set clusts. c \<noteq> [] \<and> (\<forall>v \<in> set c. v < length voxels)))"

definition voxel_distances :: "real list list \<Rightarrow> nat list list \<Rightarrow> nat \<Rightarrow> nat \<Rightarrow> real set" where
  "voxel_distances voxels clusts i j =
     (\<lambda>p. norm2 (vsub (voxels ! fst p) (voxels ! snd p))) ` (set (clusts ! i) \<times> set (clusts ! j))"

definition expected_entry :: "real list list \<Rightarrow> nat list list \<Rightarrow> int list \<Rightarrow> nat \<Rightarrow> nat \<Rightarrow> real" where
  "expected_entry voxels clusts batch_ids i j =
     (if i \<noteq> j \<and> batch_ids ! i = batch_ids ! j then Min (voxel_distances voxels clusts i j) else 0)"

definition expected_matrix :: "real list list \<Rightarrow> nat list list \<Rightarrow> int list \<Rightarrow> real list list" where
  "expected_matrix voxels clusts batch_ids =
     map (\<lambda>i. map (expected_entry voxels clusts batch_ids i) [0..<length batch_ids])
       [0..<length batch_ids]"

text \<open>
  The value iteration \<open>i\<close> leaves at column \<open>j\<close> when it starts from the matrix \<open>D\<close>,
  and the matrix after the first \<open>k\<close> iterations taken in increasing order.
\<close>

definition row_entry :: "real list list \<Rightarrow> nat list list \<Rightarrow> int list \<Rightarrow> nat \<Rightarrow> real list list \<Rightarrow> nat \<Rightarrow> real" where
  "row_entry voxels clusts bs i D j =
     (if bs ! i = bs ! j \<and> i \<noteq> j
      then (if i < j then expected_entry voxels clusts bs i j else D ! j ! i)
      else D ! i ! j)"

definition partial_matrix :: "real list list \<Rightarrow> nat list list \<Rightarrow> int list \<Rightarrow> nat \<Rightarrow> real list list" where
  "partial_matrix voxels clusts bs k =
     map (\<lambda>r. if r < k then map (expected_entry voxels clusts bs r) [0..<length bs]
               else replicate (length bs) 0) [0..<length bs]"

section \<open>Properties\<close>

subsection \<open>Basic facts about the helpers\<close>

lemma bindE_Inr_iff: "bindE m f = Inr y \<longleftrightarrow> (\<exists>x. m = Inr x \<and> f x = Inr y)"
  by (cases m) (simp_all add: bindE_def)

lemma bindE_Inr [simp]: "bindE (Inr x) f = f x"
  by (simp add: bindE_def)

lemma bindE_Inl [simp]: "bindE (Inl e) f = Inl e"
  by (simp add: bindE_def)

lemma edges_of_transposed [simp]: "edges_of (transposed ret) = ret"
  by (simp add: transposed_def zip_map_fst_snd)

lemma np_where_eq_nonempty: "np_where_eq xs v \<noteq> [] \<longleftrightarrow> v \<in> set xs"
  by (auto simp: np_where_eq_def filter_empty_conv in_set_conv_nth)

subsection \<open>loop_graph\<close>

text \<open>
  The only non-zero cluster count on which \<open>loop_graph\<close> returns is 2, where the
  transposed (2,2) array happens to hold the two self-loops.
\<close>

lemma loop_graph_two: "loop_graph 2 = Inr [[0, 1], [0, 1]]"
  by (simp add: loop_graph_def set_row_def np_empty_def transpose_cols_def upt_rec numeral_2_eq_2)

text \<open>On no cluster at all the loop does not run and the transpose has shape (0,2).\<close>

lemma loop_graph_zero: "loop_graph 0 = Inr []"
  by (simp add: loop_graph_def np_empty_def transpose_cols_def numeral_2_eq_2)

lemma loop_graph_raises:
  "n \<noteq> 0 \<Longrightarrow> n \<noteq> 2 \<Longrightarrow> loop_graph n = Inl (ValueError ''could not broadcast input array'')"
  by (simp add: loop_graph_def set_row_def np_empty_def upt_rec[of 0 n])

text \<open>
  C1.  The self-loop strategy is claimed to return, for every cluster count \<open>n\<close>, the (2,n)
  incidence matrix of the self-loops \<open>(k,k)\<close>.  On one cluster the source allocates a
  (2,1) array and assigns the pair \<open>[0,0]\<close> to its first row of length 1, which raises
  instead of returning \<open>[[0],[0]]\<close>.
\<close>

theorem loop_graph_one_cluster:
  "loop_graph 1 = Inl (ValueError ''could not broadcast input array'')"
  by (simp add: loop_graph_def set_row_def np_empty_def)

subsection \<open>_get_fragment_edges\<close>

lemma foldl_fragment_step:
  "foldl (fragment_step ids) [] (foldl (fragment_step ids) acc g) =
     foldl (fragment_step ids) [] acc @ foldl (fragment_step ids) [] g"
  if "fixed_ids ids"
  using that
proof (induction g arbitrary: acc rule: rev_induct)
  case Nil
  then show ?case by simp
next
  case (snoc e g)
  then show ?case
    by (auto simp: fragment_step_def Let_def np_where_eq_nonempty fixed_ids_def)
qed

text \<open>
  C7 as stated: mapping an edge list twice against the same local id list gives the same
  result as mapping it once.  It fails on the edge (5,7) against the id list [5,7]: the
  first application gives the local edge (0,1), and neither 0 nor 1 is an id of the list,
  so the second application drops it.
\<close>

theorem fragment_edges_not_idempotent:
  "u_get_fragment_edges (u_get_fragment_edges [(5, 7)] [5, 7]) [5, 7]
     \<noteq> u_get_fragment_edges [(5, 7)] [5, 7]"
  by (simp add: u_get_fragment_edges_def fragment_step_def np_where_eq_def)

text \<open>
  C7 as amended: for every edge list, and every local id list in which each position the
  mapping can produce is itself an id first found at that position (the identity list
  0..C-1 in particular), mapping twice gives the same result as mapping once.
\<close>

theorem fragment_edges_idempotent_on_fixed_ids:
  "fixed_ids ids \<Longrightarrow>
     u_get_fragment_edges (u_get_fragment_edges g ids) ids = u_get_fragment_edges g ids"
  using foldl_fragment_step [of ids "[]" g] by (simp add: u_get_fragment_edges_def)

theorem fragment_edges_idempotent_on_fixed_ids_witness:
  "fixed_ids [0, 1, 1] \<and>
   u_get_fragment_edges [(1, 0), (1, 9)] [0, 1, 1] = [(1, 0)] \<and>
   u_get_fragment_edges (u_get_fragment_edges [(1, 0), (1, 9)] [0, 1, 1]) [0, 1, 1]
     = u_get_fragment_edges [(1, 0), (1, 9)] [0, 1, 1]"
proof -
  have h: "fixed_ids [0, 1, 1]"
    by (simp add: fixed_ids_def np_where_eq_def)
  have v: "u_get_fragment_edges [(1, 0), (1, 9)] [0, 1, 1] = [(1, 0)]"
    by (simp add: u_get_fragment_edges_def fragment_step_def np_where_eq_def)
  show ?thesis
    using h v fragment_edges_idempotent_on_fixed_ids [OF h, of "[(1, 0), (1, 9)]"] by simp
qed

lemma fixed_ids_identity: "fixed_ids (map int [0..<n])"
proof -
  have "np_where_eq (map int [0..<n]) (int k) = [k]" if "k < n" for k
  proof -
    have "filter (\<lambda>i. map int [0..<n] ! i = int k) [0..<n] = filter (\<lambda>i. i = k) [0..<n]"
      by (rule filter_cong) auto
    also have "\<dots> = [k]"
      using that by (induction n) auto
    finally show ?thesis by (simp add: np_where_eq_def)
  qed
  then show ?thesis by (auto simp: fixed_ids_def)
qed

subsection \<open>Pruning\<close>

lemma mapE_Inr_length: "mapE f xs = Inr ys \<Longrightarrow> length ys = length xs"
  by (induction xs arbitrary: ys) (auto simp: bindE_Inr_iff)

lemma mapE_Inr_nth: "mapE f xs = Inr ys \<Longrightarrow> i < length xs \<Longrightarrow> f (xs ! i) = Inr (ys ! i)"
  by (induction xs arbitrary: ys i) (auto simp: bindE_Inr_iff nth_Cons split: nat.splits)

lemma edge_dists_nth:
  "edge_dists d ret = Inr dists \<Longrightarrow> i < length ret \<Longrightarrow> dists ! i = d ! fst (ret ! i) ! snd (ret ! i)"
  unfolding edge_dists_def
  by (drule mapE_Inr_nth[where i=i]) (auto simp: bindE_Inr_iff getitem_def split: if_splits)

text \<open>What the pruning block keeps: the edges whose entry is strictly below the threshold.\<close>

lemma prune_keeps_below:
  assumes "prune (Some d) max_dist ret = Inr ret'" "max_dist > - 1"
  shows "ret' = filter (\<lambda>e. d ! fst e ! snd e < max_dist) ret"
proof -
  from assms obtain dists where ds: "edge_dists d ret = Inr dists"
    and r: "ret' = map fst (filter (\<lambda>p. snd p < max_dist) (zip ret dists))"
    by (auto simp: prune_def bindE_Inr_iff)
  have len: "length dists = length ret"
    using ds by (simp add: edge_dists_def mapE_Inr_length)
  have "dists = map (\<lambda>e. d ! fst e ! snd e) ret"
    using len edge_dists_nth[OF ds] by (auto simp: list_eq_iff_nth_eq)
  then have "zip ret dists = map (\<lambda>e. (e, d ! fst e ! snd e)) ret"
    by (simp add: zip_map2 zip_same_conv_map)
  then show ?thesis
    by (simp add: r filter_map comp_def)
qed

lemma prune_off: "\<not> max_dist > - 1 \<Longrightarrow> prune dm max_dist ret = Inr ret"
  by (simp add: prune_def)

lemma prune_subset: "prune dm max_dist ret = Inr ret' \<Longrightarrow> set ret' \<subseteq> set ret"
proof (cases "max_dist > - 1")
  case True
  assume p: "prune dm max_dist ret = Inr ret'"
  with True obtain d where "dm = Some d"
    by (cases dm) (auto simp: prune_def)
  with p True show ?thesis
    by (auto dest: prune_keeps_below)
next
  case False
  assume "prune dm max_dist ret = Inr ret'"
  with False show ?thesis by (simp add: prune_off)
qed

text \<open>With a threshold just above the distance the pair of edges is kept.\<close>

lemma complete_graph_above_threshold:
  "complete_graph [0, 0] (Some [[0, 2], [2, 0]]) 3 = Inr [[0, 1], [1, 0]]"
  by (simp add: complete_graph_def edge_count_def np_unique_def batch_size_def int_half_def
      upper_pairs_def fill_step_def setitem_def np_empty_def prune_def edge_dists_def getitem_def
      add_reciprocal_def reversed_cols_def transposed_def upt_rec numeral_2_eq_2)

text \<open>
  C6.  Pruning is claimed to remove exactly the candidate edges whose distance-matrix entry
  exceeds the threshold, and to keep an edge whose distance equals the threshold.  Two
  clusters of one batch at distance 2, pruned with the threshold 2: the source keeps
  \<open>dists < max_dist\<close>, so the edge is removed and the graph comes out empty.
\<close>

theorem complete_graph_drops_edge_at_threshold:
  "complete_graph [0, 0] (Some [[0, 2], [2, 0]]) 2 = Inr [[], []]"
  by (simp add: complete_graph_def edge_count_def np_unique_def batch_size_def int_half_def
      upper_pairs_def fill_step_def setitem_def np_empty_def prune_def edge_dists_def getitem_def
      add_reciprocal_def reversed_cols_def transposed_def upt_rec numeral_2_eq_2)

subsection \<open>bipartite_graph: the orientation string\<close>

text \<open>
  C9 as stated: an orientation string that is neither 'primary' nor 'secondary' makes the
  call fail, whatever the directed flag.  With \<open>directed=False\<close> the string is never
  looked at: one primary and two secondaries give the symmetrized graph.
\<close>

theorem bipartite_graph_undirected_ignores_orientation:
  "bipartite_graph [0, 0, 0] [True, False, False] None (- 1) False ''sideways''
     = Inr [[0, 0, 1, 2], [1, 2, 0, 0]]"
  by (simp add: bipartite_graph_def bipartite_pairs_def np_where_def getitem_def prune_def
      add_reciprocal_def reversed_cols_def transposed_def upt_rec numeral_3_eq_3)

text \<open>
  C9 as amended: with \<open>directed=True\<close>, an orientation string that is neither 'primary'
  nor 'secondary' makes the call fail; once the edges are built and pruned without error
  the failure is the ValueError 'Graph orientation not recognized'.  With
  \<open>directed=False\<close> the orientation string has no effect on the result.
\<close>

theorem bipartite_graph_invalid_orientation:
  assumes "directed_to \<noteq> ''primary''" "directed_to \<noteq> ''secondary''"
  shows "(\<exists>e. bipartite_graph batch_ids primaries dist_mat max_dist True directed_to = Inl e) \<and>
         (\<forall>ret ret'. bipartite_pairs batch_ids primaries = Inr ret \<longrightarrow>
            prune dist_mat max_dist ret = Inr ret' \<longrightarrow>
            bipartite_graph batch_ids primaries dist_mat max_dist True directed_to
              = Inl (ValueError ''Graph orientation not recognized'')) \<and>
         bipartite_graph batch_ids primaries dist_mat max_dist False directed_to
           = bipartite_graph batch_ids primaries dist_mat max_dist False ''secondary''"
  using assms
  by (auto simp: bipartite_graph_def bindE_def split: sum.splits)

theorem bipartite_graph_invalid_orientation_witness:
  "''sideways'' \<noteq> ''primary'' \<and> ''sideways'' \<noteq> ''secondary'' \<and>
   bipartite_pairs [0, 0, 0] [True, False, False] = Inr [(0, 1), (0, 2)] \<and>
   prune None (- 1) [(0, 1), (0, 2)] = Inr [(0, 1), (0, 2)] \<and>
   bipartite_graph [0, 0, 0] [True, False, False] None (- 1) True ''sideways''
     = Inl (ValueError ''Graph orientation not recognized'')"
proof -
  have a: "''sideways'' \<noteq> ''primary''" and b: "''sideways'' \<noteq> ''secondary''"
    by simp_all
  have p: "bipartite_pairs [0, 0, 0] [True, False, False] = Inr [(0, 1), (0, 2)]"
    by (simp add: bipartite_pairs_def np_where_def getitem_def upt_rec numeral_3_eq_3)
  have q: "prune None (- 1) [(0, 1), (0, 2)] = Inr [(0, 1), (0, 2)]"
    by (simp add: prune_def)
  show ?thesis
    using a b p q
      bipartite_graph_invalid_orientation [OF a b, of "[0, 0, 0]" "[True, False, False]" None "- 1"]
    by blast
qed

subsection \<open>_inter_cluster_distance\<close>

text \<open>Two clusters of one voxel each, one unit apart, on a single thread.\<close>

lemma inter_cluster_distance_in_order:
  "u_inter_cluster_distance [0, 1] [[0, 0, 0], [1, 0, 0]] [[0], [1]] [0, 0] = Inr [[0, 1], [1, 0]]"
  by (simp add: u_inter_cluster_distance_def icd_iteration_def icd_cell_def take_rows_def
      getitem_def np_min_def cdist_nb_def norm2_def vsub_def mat_set_def upt_rec numeral_2_eq_2)

text \<open>
  C2.  The distance matrix is claimed to be symmetric and to hold, at every off-diagonal
  entry of two clusters of one batch, the minimum distance between their voxels.  Iteration
  \<open>i = 1\<close> of the parallel loop copies \<open>dist_mat[0,1]\<close>, which iteration \<open>i = 0\<close> writes.
  When it takes effect first, it copies the initial 0: entry (1,0) stays 0 while entry
  (0,1) is the distance 1.
\<close>

theorem inter_cluster_distance_race:
  "u_inter_cluster_distance [1, 0] [[0, 0, 0], [1, 0, 0]] [[0], [1]] [0, 0] = Inr [[0, 1], [0, 0]]"
  by (simp add: u_inter_cluster_distance_def icd_iteration_def icd_cell_def take_rows_def
      getitem_def np_min_def cdist_nb_def norm2_def vsub_def mat_set_def upt_rec numeral_2_eq_2)

subsection \<open>Reciprocal edges\<close>

lemma foldE_invariant:
  assumes "foldE f s xs = Inr s'" "P s"
    and "\<And>s x t. x \<in> set xs \<Longrightarrow> P s \<Longrightarrow> f s x = Inr t \<Longrightarrow> P t"
  shows "P s'"
  using assms
proof (induction xs arbitrary: s)
  case Nil
  then show ?case by simp
next
  case (Cons x xs)
  from Cons.prems(1) obtain t where t: "f s x = Inr t" and r: "foldE f t xs = Inr s'"
    by (auto simp: bindE_Inr_iff)
  have "P t" using Cons.prems(2,3) t by auto
  then show ?case using Cons.IH[OF r] Cons.prems(3) by auto
qed

lemma mapE_Inr_set:
  "mapE f xs = Inr ys \<Longrightarrow> y \<in> set ys \<Longrightarrow> \<exists>x \<in> set xs. f x = Inr y"
  by (induction xs arbitrary: ys) (auto simp: bindE_Inr_iff)

lemma contents_Inr_map: "contents xs = Inr ys \<Longrightarrow> xs = map Some ys"
  by (induction xs arbitrary: ys rule: contents.induct) (auto simp: bindE_Inr_iff)

lemma set_add_reciprocal: "set (add_reciprocal ret) = set ret \<union> {(j, i). (i, j) \<in> set ret}"
  by (force simp: add_reciprocal_def reversed_cols_def)

lemma reciprocal_transposed: "reciprocal (transposed (add_reciprocal ret))"
  by (auto simp: reciprocal_def set_add_reciprocal)

lemma complete_graph_shape:
  "complete_graph bs dm md = Inr M \<Longrightarrow> \<exists>ret. M = transposed (add_reciprocal ret)"
  by (auto simp: complete_graph_def Let_def bindE_Inr_iff transposed_def add_reciprocal_def
      reversed_cols_def split: if_splits intro: exI[of _ "[]"])

text \<open>
  C3.  The incidence matrix returned by the complete, Delaunay, MST and kNN strategies and
  by the bipartite strategy with \<open>directed=False\<close> holds, for every edge \<open>(i,j)\<close> with
  \<open>i \<noteq> j\<close>, the edge \<open>(j,i)\<close> too, for every input (and whatever the triangulation
  and spanning-tree routines return).
\<close>

theorem undirected_strategies_reciprocal:
  "(\<forall>M. complete_graph batch_ids dist_mat max_dist = Inr M \<longrightarrow> reciprocal M) \<and>
   (\<forall>M. delaunay_graph delaunay data clusts batch_ids dist_mat max_dist = Inr M \<longrightarrow> reciprocal M) \<and>
   (\<forall>M. mst_graph mst batch_ids dist_mat max_dist = Inr M \<longrightarrow> reciprocal M) \<and>
   (\<forall>M. knn_graph batch_ids k dist_mat = Inr M \<longrightarrow> reciprocal M) \<and>
   (\<forall>M. bipartite_graph batch_ids primaries dist_mat max_dist False directed_to = Inr M
        \<longrightarrow> reciprocal M)"
proof (intro conjI allI impI)
  fix M assume "complete_graph batch_ids dist_mat max_dist = Inr M"
  then show "reciprocal M"
    by (auto dest!: complete_graph_shape simp: reciprocal_transposed)
next
  fix M assume "delaunay_graph delaunay data clusts batch_ids dist_mat max_dist = Inr M"
  then show "reciprocal M"
    by (auto simp: delaunay_graph_def bindE_Inr_iff reciprocal_transposed)
next
  fix M assume "mst_graph mst batch_ids dist_mat max_dist = Inr M"
  then show "reciprocal M"
    by (auto simp: mst_graph_def bindE_Inr_iff reciprocal_transposed)
next
  fix M assume "knn_graph batch_ids k dist_mat = Inr M"
  then show "reciprocal M"
    by (auto simp: knn_graph_def bindE_Inr_iff reciprocal_transposed)
next
  fix M assume "bipartite_graph batch_ids primaries dist_mat max_dist False directed_to = Inr M"
  then show "reciprocal M"
    by (auto simp: bipartite_graph_def bindE_Inr_iff reciprocal_transposed)
qed

text \<open>Three clusters of one batch, at distances 1, 5 and 2, under each strategy.\<close>

lemma complete_graph_three:
  "complete_graph [0, 0, 0] (Some [[0, 1, 5], [1, 0, 2], [5, 2, 0]]) (- 1)
     = Inr [[0, 0, 1, 1, 2, 2], [1, 2, 2, 0, 0, 1]]"
  by code_simp

lemma delaunay_graph_three:
  "delaunay_graph (\<lambda>pts. Inr [[0, 1, 2, 3]])
     [[0, 0, 0, 0], [1, 0, 0, 0], [0, 1, 0, 0], [0, 0, 1, 0]] [[0, 1], [2], [3]] [0, 0, 0]
     (Some [[0, 1, 5], [1, 0, 2], [5, 2, 0]]) (- 1)
     = Inr [[0, 0, 1, 1, 2, 2], [1, 2, 2, 0, 0, 1]]"
  by code_simp

lemma mst_graph_three:
  "mst_graph (\<lambda>m. Inr [[0, 1, 0], [0, 0, 2], [0, 0, 0]]) [0, 0, 0]
     (Some [[0, 1, 5], [1, 0, 2], [5, 2, 0]]) (- 1)
     = Inr [[0, 1, 1, 2], [1, 2, 0, 1]]"
  by code_simp

lemma knn_graph_three:
  "knn_graph [0, 0, 0] 1 (Some [[0, 1, 5], [1, 0, 2], [5, 2, 0]])
     = Inr [[0, 1, 2, 1, 0, 1], [1, 0, 1, 0, 1, 2]]"
  by code_simp

lemma bipartite_graph_three_undirected:
  "bipartite_graph [0, 0, 0] [True, False, False] (Some [[0, 1, 5], [1, 0, 2], [5, 2, 0]]) (- 1)
     False ''secondary'' = Inr [[0, 0, 1, 2], [1, 2, 0, 0]]"
  by code_simp

lemma bipartite_graph_three_directed:
  "bipartite_graph [0, 0, 0] [True, False, False] (Some [[0, 1, 5], [1, 0, 2], [5, 2, 0]]) (- 1)
     True ''secondary'' = Inr [[0, 0], [1, 2]]"
  by code_simp

theorem undirected_strategies_reciprocal_witness:
  "reciprocal [[0, 0, 1, 1, 2, 2], [1, 2, 2, 0, 0, 1]] \<and>
   reciprocal [[0, 1, 1, 2], [1, 2, 0, 1]] \<and>
   reciprocal [[0, 1, 2, 1, 0, 1], [1, 0, 1, 0, 1, 2]] \<and>
   reciprocal [[0, 0, 1, 2], [1, 2, 0, 0]]"
  using undirected_strategies_reciprocal
    [of "[0, 0, 0]" "Some [[0, 1, 5], [1, 0, 2], [5, 2, 0]]" "- 1"
        "\<lambda>pts. Inr [[0, 1, 2, 3]]" "[[0, 0, 0, 0], [1, 0, 0, 0], [0, 1, 0, 0], [0, 0, 1, 0]]"
        "[[0, 1], [2], [3]]" "\<lambda>m. Inr [[0, 1, 0], [0, 0, 2], [0, 0, 0]]" 1
        "[True, False, False]" "''secondary''"]
    complete_graph_three delaunay_graph_three mst_graph_three knn_graph_three
    bipartite_graph_three_undirected
  by blast

subsection \<open>Edges stay within a batch\<close>

lemma within_batches_finish:
  assumes "\<forall>e \<in> set ret. same_batch bs e" "prune dm md ret = Inr ret'"
  shows "within_batches bs (transposed (add_reciprocal ret'))"
    and "within_batches bs (transposed ret')"
    and "within_batches bs (transposed (reversed_cols ret'))"
  using assms prune_subset[OF assms(2)]
  by (fastforce simp: within_batches_def set_add_reciprocal reversed_cols_def same_batch_def)+

lemma within_batches_finish':
  assumes "\<forall>e \<in> set ret. same_batch bs e"
  shows "within_batches bs (transposed (add_reciprocal ret))"
  using assms
  by (fastforce simp: within_batches_def set_add_reciprocal same_batch_def)

lemma set_upper_pairs: "set (upper_pairs n) = {(i, j). i < j \<and> j < n}"
  by (force simp: upper_pairs_def)

lemma fill_same_batch:
  assumes "foldE (fill_step bs) (np_empty m, 0) (upper_pairs (length bs)) = Inr st"
    and "Some e \<in> set (fst st)"
  shows "same_batch bs e"
proof -
  let ?P = "\<lambda>st. \<forall>e. Some e \<in> set (fst st) \<longrightarrow> same_batch bs e"
  have "?P st"
  proof (rule foldE_invariant[OF assms(1), where P = ?P])
    show "?P (np_empty m, 0)" by (simp add: np_empty_def)
  next
    fix s x t
    assume x: "x \<in> set (upper_pairs (length bs))" and P: "?P s" and f: "fill_step bs s x = Inr t"
    show "?P t"
    proof (cases "bs ! fst x = bs ! snd x")
      case True
      with x have "same_batch bs x"
        by (auto simp: set_upper_pairs same_batch_def)
      moreover from True f have "set (fst t) \<subseteq> insert (Some x) (set (fst s))"
        by (auto simp: fill_step_def setitem_def bindE_Inr_iff split: if_splits dest: set_update_subset_insert[THEN subsetD])
      ultimately show ?thesis using P by auto
    next
      case False
      with f P show ?thesis by (simp add: fill_step_def)
    qed
  qed
  with assms(2) show ?thesis by blast
qed

lemma complete_graph_within:
  assumes "complete_graph bs dm md = Inr M"
  shows "within_batches bs M"
proof (cases "edge_count bs = 0")
  case True
  with assms show ?thesis by (auto simp: complete_graph_def within_batches_def)
next
  case False
  with assms obtain st ret ret' where
    f: "foldE (fill_step bs) (np_empty (nat (edge_count bs)), 0) (upper_pairs (length bs)) = Inr st"
    and c: "contents (fst st) = Inr ret" and p: "prune dm md ret = Inr ret'"
    and M: "M = transposed (add_reciprocal ret')"
    by (auto simp: complete_graph_def Let_def bindE_Inr_iff split: if_splits)
  have "\<forall>e \<in> set ret. same_batch bs e"
    using fill_same_batch[OF f] contents_Inr_map[OF c] by auto
  then show ?thesis
    using within_batches_finish(1)[OF _ p] M by simp
qed

lemma np_where_eq_set: "set (np_where_eq xs v) = {i. i < length xs \<and> xs ! i = v}"
  by (auto simp: np_where_eq_def)

lemma np_where_eq_nth:
  "a < length (np_where_eq bs b) \<Longrightarrow> np_where_eq bs b ! a < length bs \<and> bs ! (np_where_eq bs b ! a) = b"
  using np_where_eq_set[of bs b] nth_mem[of a "np_where_eq bs b"] by auto

lemma per_batch_set:
  assumes "per_batch g bs = Inr ret" "e \<in> set ret"
  shows "\<exists>b es. g b = Inr es \<and> e \<in> set es"
proof -
  let ?P = "\<lambda>ret. \<forall>e \<in> set ret. \<exists>b es. g b = Inr es \<and> e \<in> set es"
  have "?P ret"
  proof (rule foldE_invariant[OF assms(1)[unfolded per_batch_def], where P = ?P])
    show "?P []" by simp
  next
    fix s x t
    assume "?P s" "bindE (g x) (\<lambda>edges. Inr (s @ edges)) = Inr t"
    then show "?P t"
      by (auto simp: bindE_Inr_iff) blast
  qed
  with assms(2) show ?thesis by blast
qed

lemma delaunay_batch_same:
  assumes "delaunay_batch dl data clusts bs b = Inr es" "e \<in> set es"
  shows "same_batch bs e"
proof -
  let ?c = "np_where_eq bs b"
  from assms obtain a a' where "a < length ?c" "a' < length ?c" "e = (?c ! a, ?c ! a')"
    by (auto simp: delaunay_batch_def Let_def bindE_Inr_iff where_adjacent_def)
  then show ?thesis
    using np_where_eq_nth[of a bs b] np_where_eq_nth[of a' bs b] by (simp add: same_batch_def)
qed

lemma mst_batch_same:
  assumes "mst_batch mst bs dm b = Inr es" "e \<in> set es"
  shows "same_batch bs e"
proof -
  let ?c = "np_where_eq bs b"
  have "\<exists>p. bindE (getitem ?c (fst p)) (\<lambda>i. bindE (getitem ?c (snd p)) (\<lambda>j. Inr (i, j))) = Inr e"
  proof (cases "length ?c > 1")
    case True
    with assms(1) obtain ps where
      "mapE (\<lambda>p. bindE (getitem ?c (fst p)) (\<lambda>i. bindE (getitem ?c (snd p)) (\<lambda>j. Inr (i, j)))) ps = Inr es"
      by (auto simp: mst_batch_def Let_def bindE_Inr_iff split: option.splits)
    from mapE_Inr_set[OF this assms(2)] show ?thesis by blast
  next
    case False
    with assms show ?thesis by (simp add: mst_batch_def)
  qed
  then obtain a a' where "a < length ?c" "a' < length ?c" "e = (?c ! a, ?c ! a')"
    by (auto simp: bindE_Inr_iff getitem_def split: if_splits)
  then show ?thesis
    using np_where_eq_nth[of a bs b] np_where_eq_nth[of a' bs b] by (simp add: same_batch_def)
qed

lemma knn_row_same:
  assumes "knn_row (np_where_eq bs b) subk submat i = Inr es" "e \<in> set es"
  shows "same_batch bs e"
proof -
  let ?c = "np_where_eq bs b"
  let ?P = "\<lambda>edges. \<forall>e. Some e \<in> set edges \<longrightarrow> same_batch bs e"
  from assms(1) obtain ps edges where
    f: "foldE (\<lambda>edges p. bindE (getitem ?c i) (\<lambda>ci. bindE (getitem ?c (snd p)) (\<lambda>cj. setitem edges (fst p) (ci, cj))))
          (np_empty (nat (subk - 1))) ps = Inr edges"
    and c: "contents edges = Inr es"
    unfolding knn_row_def Let_def by (auto simp: bindE_Inr_iff split: if_splits)
  have "?P edges"
  proof (rule foldE_invariant[OF f, where P = ?P])
    show "?P (np_empty (nat (subk - 1)))" by (simp add: np_empty_def)
  next
    fix s x t
    assume P: "?P s"
      and st: "bindE (getitem ?c i) (\<lambda>ci. bindE (getitem ?c (snd x)) (\<lambda>cj. setitem s (fst x) (ci, cj))) = Inr t"
    then obtain a where a: "i < length ?c" "snd x < length ?c" "t = s[fst x := Some (?c ! i, ?c ! snd x)]"
      by (auto simp: bindE_Inr_iff getitem_def setitem_def split: if_splits)
    have "same_batch bs (?c ! i, ?c ! snd x)"
      using np_where_eq_nth[of i bs b] np_where_eq_nth[of "snd x" bs b] a by (simp add: same_batch_def)
    then show "?P t"
      using P a(3) by (auto dest: set_update_subset_insert[THEN subsetD])
  qed
  then show ?thesis
    using contents_Inr_map[OF c] assms(2) by (cases e) auto
qed

lemma knn_batch_same:
  assumes "knn_batch bs k dm b = Inr es" "e \<in> set es"
  shows "same_batch bs e"
proof (cases "length (np_where_eq bs b) > 1")
  case True
  let ?c = "np_where_eq bs b"
  from True assms(1) obtain submat :: "real list list" where
    f: "foldE (\<lambda>ret i. bindE (knn_row ?c (min (k + 1) (int (length ?c))) submat i) (\<lambda>edges. Inr (ret @ edges)))
          [] [0..<length submat] = Inr es"
    by (auto simp: knn_batch_def Let_def bindE_Inr_iff split: option.splits)
  let ?P = "\<lambda>ret. \<forall>e \<in> set ret. same_batch bs e"
  have "?P es"
    by (rule foldE_invariant[OF f, where P = ?P]) (auto simp: bindE_Inr_iff dest: knn_row_same)
  with assms(2) show ?thesis by blast
next
  case False
  with assms show ?thesis by (simp add: knn_batch_def)
qed

lemma bipartite_pairs_same:
  assumes "bipartite_pairs bs pr = Inr ret" "e \<in> set ret"
  shows "same_batch bs e"
proof -
  let ?P = "\<lambda>ret. \<forall>e \<in> set ret. same_batch bs e"
  have "?P ret"
    by (rule foldE_invariant[OF assms(1)[unfolded bipartite_pairs_def], where P = ?P])
       (auto simp: bindE_Inr_iff getitem_def same_batch_def split: if_splits)
  with assms(2) show ?thesis by blast
qed

lemma loop_graph_self:
  assumes "loop_graph n = Inr M" "(i, j) \<in> set (edges_of M)"
  shows "i = j"
proof -
  consider "n = 0" | "n = 2" | "n \<noteq> 0" "n \<noteq> 2" by blast
  then show ?thesis
  proof cases
    case 1
    with assms show ?thesis
      by (simp add: loop_graph_def transpose_cols_def np_empty_def numeral_2_eq_2)
  next
    case 2
    with assms show ?thesis
      by (auto simp add: loop_graph_def set_row_def np_empty_def transpose_cols_def upt_rec numeral_2_eq_2)
  next
    case 3
    then have "loop_graph n = Inl (ValueError ''could not broadcast input array'')"
      by (simp add: loop_graph_def set_row_def np_empty_def upt_rec[of 0 n])
    with assms show ?thesis by simp
  qed
qed

text \<open>
  C4.  No edge of the incidence matrix returned by any strategy joins two clusters whose
  batch ids differ, for every input.  The self-loop strategy takes no batch ids: its edges
  join a cluster to itself, whatever the batch-id array.
\<close>

theorem strategies_within_batches:
  "(\<forall>M. loop_graph n = Inr M \<longrightarrow> self_loops batch_ids M) \<and>
   (\<forall>M. complete_graph batch_ids dist_mat max_dist = Inr M \<longrightarrow> within_batches batch_ids M) \<and>
   (\<forall>M. delaunay_graph delaunay data clusts batch_ids dist_mat max_dist = Inr M
        \<longrightarrow> within_batches batch_ids M) \<and>
   (\<forall>M. mst_graph mst batch_ids dist_mat max_dist = Inr M \<longrightarrow> within_batches batch_ids M) \<and>
   (\<forall>M. knn_graph batch_ids k dist_mat = Inr M \<longrightarrow> within_batches batch_ids M) \<and>
   (\<forall>M. bipartite_graph batch_ids primaries dist_mat max_dist directed directed_to = Inr M
        \<longrightarrow> within_batches batch_ids M)"
proof (intro conjI allI impI)
  fix M assume "loop_graph n = Inr M"
  then show "self_loops batch_ids M"
    using loop_graph_self unfolding self_loops_def by fastforce
next
  fix M assume "complete_graph batch_ids dist_mat max_dist = Inr M"
  then show "within_batches batch_ids M" by (rule complete_graph_within)
next
  fix M assume "delaunay_graph delaunay data clusts batch_ids dist_mat max_dist = Inr M"
  then obtain ret ret' where r: "per_batch (delaunay_batch delaunay data clusts batch_ids) batch_ids = Inr ret"
    and p: "prune dist_mat max_dist ret = Inr ret'" and M: "M = transposed (add_reciprocal ret')"
    by (auto simp: delaunay_graph_def bindE_Inr_iff)
  have "\<forall>e \<in> set ret. same_batch batch_ids e"
    using per_batch_set[OF r] delaunay_batch_same by blast
  then show "within_batches batch_ids M"
    using within_batches_finish(1)[OF _ p] M by simp
next
  fix M assume "mst_graph mst batch_ids dist_mat max_dist = Inr M"
  then obtain ret ret' where r: "per_batch (mst_batch mst batch_ids dist_mat) batch_ids = Inr ret"
    and p: "prune dist_mat max_dist ret = Inr ret'" and M: "M = transposed (add_reciprocal ret')"
    by (auto simp: mst_graph_def bindE_Inr_iff)
  have "\<forall>e \<in> set ret. same_batch batch_ids e"
    using per_batch_set[OF r] mst_batch_same by blast
  then show "within_batches batch_ids M"
    using within_batches_finish(1)[OF _ p] M by simp
next
  fix M assume "knn_graph batch_ids k dist_mat = Inr M"
  then obtain ret where r: "per_batch (knn_batch batch_ids k dist_mat) batch_ids = Inr ret"
    and M: "M = transposed (add_reciprocal ret)"
    by (auto simp: knn_graph_def bindE_Inr_iff)
  have "\<forall>e \<in> set ret. same_batch batch_ids e"
    using per_batch_set[OF r] knn_batch_same by blast
  then show "within_batches batch_ids M"
    using within_batches_finish'[of ret batch_ids] M by simp
next
  fix M assume a: "bipartite_graph batch_ids primaries dist_mat max_dist directed directed_to = Inr M"
  then obtain ret ret' where r: "bipartite_pairs batch_ids primaries = Inr ret"
    and p: "prune dist_mat max_dist ret = Inr ret'"
    by (auto simp: bipartite_graph_def bindE_Inr_iff)
  have s: "\<forall>e \<in> set ret. same_batch batch_ids e"
    using bipartite_pairs_same[OF r] by blast
  from a r p have "M = transposed (add_reciprocal ret') \<or> M = transposed ret' \<or> M = transposed (reversed_cols ret')"
    by (auto simp: bipartite_graph_def split: if_splits)
  then show "within_batches batch_ids M"
    using within_batches_finish[OF s p] by auto
qed

text \<open>Clusters 0 and 2 in batch 0, cluster 1 in batch 1.\<close>

lemma complete_graph_two_batches:
  "complete_graph [0, 1, 0] (Some [[0, 1, 5], [1, 0, 2], [5, 2, 0]]) (- 1) = Inr [[0, 2], [2, 0]]"
  by code_simp

lemma delaunay_graph_two_batches:
  "delaunay_graph (\<lambda>pts. Inr [[0..<length pts]])
     [[0, 0, 0, 0], [1, 0, 0, 0], [0, 1, 0, 1], [0, 0, 1, 0]] [[0, 1], [2], [3]] [0, 1, 0]
     (Some [[0, 1, 5], [1, 0, 2], [5, 2, 0]]) (- 1)
     = Inr [[0, 2], [2, 0]]"
  by code_simp

lemma mst_graph_two_batches:
  "mst_graph (\<lambda>m. Inr m) [0, 1, 0] (Some [[0, 1, 5], [1, 0, 2], [5, 2, 0]]) (- 1)
     = Inr [[0, 2], [2, 0]]"
  by code_simp

lemma knn_graph_two_batches:
  "knn_graph [0, 1, 0] 1 (Some [[0, 1, 5], [1, 0, 2], [5, 2, 0]])
     = Inr [[0, 2, 2, 0], [2, 0, 0, 2]]"
  by code_simp

lemma bipartite_graph_two_batches:
  "bipartite_graph [0, 1, 0] [True, False, False] (Some [[0, 1, 5], [1, 0, 2], [5, 2, 0]]) (- 1)
     True ''secondary'' = Inr [[0], [2]]"
  by code_simp

theorem strategies_within_batches_witness:
  "self_loops [0, 1, 0] [[0, 1], [0, 1]] \<and>
   within_batches [0, 1, 0] [[0, 2], [2, 0]] \<and>
   within_batches [0, 1, 0] [[0, 2, 2, 0], [2, 0, 0, 2]] \<and>
   within_batches [0, 1, 0] [[0], [2]]"
  using strategies_within_batches
    [of 2 "[0, 1, 0]" "Some [[0, 1, 5], [1, 0, 2], [5, 2, 0]]" "- 1"
        "\<lambda>pts. Inr [[0..<length pts]]" "[[0, 0, 0, 0], [1, 0, 0, 0], [0, 1, 0, 1], [0, 0, 1, 0]]"
        "[[0, 1], [2], [3]]" "\<lambda>m. Inr m" 1 "[True, False, False]" True "''secondary''"]
    loop_graph_two complete_graph_two_batches delaunay_graph_two_batches mst_graph_two_batches
    knn_graph_two_batches bipartite_graph_two_batches
  by blast

subsection \<open>The number of edges of the complete graph\<close>

lemma upper_pairs_Suc:
  "upper_pairs (Suc n) =
     map (Pair 0) [1..<Suc n] @ map (\<lambda>e. (Suc (fst e), Suc (snd e))) (upper_pairs n)"
proof -
  have a: "[0..<Suc n] = 0 # map Suc [0..<n]"
    by (simp add: upt_conv_Cons map_Suc_upt del: upt_Suc)
  have b: "map (Pair (Suc i)) [Suc i + 1..<Suc n] = map (\<lambda>e. (Suc (fst e), Suc (snd e))) (map (Pair i) [i + 1..<n])" for i
  proof -
    have "[Suc i + 1..<Suc n] = map Suc [i + 1..<n]"
      by (simp add: map_Suc_upt del: upt_Suc)
    then show ?thesis by simp
  qed
  show ?thesis
    unfolding upper_pairs_def a
    by (simp add: map_concat comp_def flip: map_Suc_upt del: upt_Suc)
qed

lemma count_first_row:
  "length (filter (\<lambda>e. P (snd e)) (map (Pair (0::nat)) [1..<Suc n])) = length (filter (\<lambda>j. P (Suc j)) [0..<n])"
proof -
  have "[1..<Suc n] = map Suc [0..<n]"
    by (simp add: map_Suc_upt del: upt_Suc)
  then show ?thesis by (simp add: filter_map comp_def del: upt_Suc)
qed

lemma length_filter_nth: "length (filter (\<lambda>j. P (xs ! j)) [0..<length xs]) = length (filter P xs)"
proof -
  have "filter P xs = filter P (map (\<lambda>j. xs ! j) [0..<length xs])"
    by (simp add: map_nth)
  then show ?thesis by (simp add: filter_map comp_def)
qed

lemma pairs_of_batch_Cons:
  "length (filter (\<lambda>e. (x # xs) ! fst e = b \<and> (x # xs) ! snd e = b) (upper_pairs (Suc (length xs)))) =
     (if x = b then batch_size xs b else 0) +
     length (filter (\<lambda>e. xs ! fst e = b \<and> xs ! snd e = b) (upper_pairs (length xs)))"
proof -
  have "length (filter (\<lambda>e. (x # xs) ! fst e = b \<and> (x # xs) ! snd e = b) (map (Pair 0) [1..<Suc (length xs)]))
      = (if x = b then batch_size xs b else 0)"
  proof (cases "x = b")
    case True
    then have "filter (\<lambda>e. (x # xs) ! fst e = b \<and> (x # xs) ! snd e = b) (map (Pair 0) [1..<Suc (length xs)])
        = filter (\<lambda>e. (x # xs) ! snd e = b) (map (Pair 0) [1..<Suc (length xs)])"
      by (intro filter_cong) auto
    then show ?thesis
      using True count_first_row[of "\<lambda>j. (x # xs) ! j = b" "length xs"]
        length_filter_nth[of "\<lambda>v. v = b" xs]
      by (simp add: batch_size_def del: upt_Suc)
  next
    case False
    then have "filter (\<lambda>e. (x # xs) ! fst e = b \<and> (x # xs) ! snd e = b) (map (Pair 0) [1..<Suc (length xs)]) = []"
      by (auto simp: filter_empty_conv)
    with False show ?thesis by simp
  qed
  then show ?thesis
    unfolding upper_pairs_Suc by (simp add: filter_map comp_def del: upt_Suc)
qed

lemma pairs_of_batch:
  "2 * length (filter (\<lambda>e. bs ! fst e = b \<and> bs ! snd e = b) (upper_pairs (length bs)))
     = batch_size bs b * (batch_size bs b - 1)"
proof (induction bs)
  case Nil
  then show ?case by (simp add: upper_pairs_def batch_size_def)
next
  case (Cons x xs)
  have c: "batch_size (y # xs) b = (if y = b then Suc (batch_size xs b) else batch_size xs b)" for y
    by (simp add: batch_size_def)
  show ?case
  proof (cases "x = b")
    case True
    have "batch_size xs b * (batch_size xs b - 1) + 2 * batch_size xs b = Suc (batch_size xs b) * batch_size xs b"
      by (cases "batch_size xs b") simp_all
    with True Cons.IH show ?thesis
      using pairs_of_batch_Cons[of x xs b] by (simp add: c)
  next
    case False
    with Cons.IH show ?thesis
      using pairs_of_batch_Cons[of x xs b] by (simp add: c)
  qed
qed

lemma sum_list_indicator:
  "distinct ys \<Longrightarrow> v \<in> set ys \<Longrightarrow> sum_list (map (\<lambda>b. if v = b then 1 else 0) ys) = (1::nat)"
  by (induction ys) auto

lemma length_by_class:
  assumes "distinct ys" "\<forall>x \<in> set xs. f x \<in> set ys"
  shows "length xs = sum_list (map (\<lambda>b. length (filter (\<lambda>x. f x = b) xs)) ys)"
  using assms(2)
proof (induction xs)
  case Nil
  then show ?case by simp
next
  case (Cons x xs)
  have "sum_list (map (\<lambda>b. length (filter (\<lambda>x. f x = b) (x # xs))) ys)
      = sum_list (map (\<lambda>b. (if f x = b then 1 else 0) + length (filter (\<lambda>x. f x = b) xs)) ys)"
    by (intro arg_cong[where f = sum_list] map_cong) auto
  also have "\<dots> = sum_list (map (\<lambda>b. if f x = b then 1 else 0) ys) + sum_list (map (\<lambda>b. length (filter (\<lambda>x. f x = b) xs)) ys)"
    by (simp add: sum_list_addf)
  also have "\<dots> = 1 + length xs"
    using Cons sum_list_indicator[OF assms(1), of "f x"] by simp
  finally show ?case by simp
qed

lemma np_unique_props: "distinct (np_unique bs)" "set (np_unique bs) = set bs"
  by (simp_all add: np_unique_def)

lemma sum_batch_sizes: "sum_list (map (batch_size bs) (np_unique bs)) = length bs"
  using length_by_class[of "np_unique bs" bs "\<lambda>x. x"]
  by (simp add: np_unique_props batch_size_def[abs_def])

lemma same_pairs_by_batch:
  "filter (\<lambda>e. bs ! fst e = b) (filter (equal_ids bs) ps) = filter (\<lambda>e. bs ! fst e = b \<and> bs ! snd e = b) ps"
  by (induction ps) auto

lemma twice_same_pairs:
  "2 * length (filter (equal_ids bs) (upper_pairs (length bs)))
     = sum_list (map (\<lambda>b. batch_size bs b * (batch_size bs b - 1)) (np_unique bs))"
proof -
  let ?P = "filter (equal_ids bs) (upper_pairs (length bs))"
  have "\<forall>e \<in> set ?P. bs ! fst e \<in> set (np_unique bs)"
    by (auto simp: set_upper_pairs np_unique_props)
  from length_by_class[OF np_unique_props(1) this]
  have "length ?P = sum_list (map (\<lambda>b. length (filter (\<lambda>e. bs ! fst e = b \<and> bs ! snd e = b)
          (upper_pairs (length bs)))) (np_unique bs))"
    unfolding same_pairs_by_batch .
  then have "2 * length ?P = sum_list (map (\<lambda>b. 2 * length (filter (\<lambda>e. bs ! fst e = b \<and> bs ! snd e = b)
          (upper_pairs (length bs)))) (np_unique bs))"
    by (simp only: sum_list_const_mult)
  then show ?thesis
    by (simp only: pairs_of_batch)
qed

lemma int_sum_list_map: "int (sum_list (map g xs)) = sum_list (map (\<lambda>x. int (g x)) xs)"
  by (induction xs) auto

lemma foldl_add: "foldl (\<lambda>c b. c + g b) a xs = a + sum_list (map g xs)" for a :: int
  by (induction xs arbitrary: a) auto

lemma edge_count_eq: "edge_count bs = int (length (filter (equal_ids bs) (upper_pairs (length bs))))"
proof -
  have sq: "(int (batch_size bs b))\<^sup>2 = int (batch_size bs b * (batch_size bs b - 1)) + int (batch_size bs b)" for b
    by (cases "batch_size bs b") (simp_all add: power2_eq_square algebra_simps)
  have "sum_list (map (\<lambda>b. (int (batch_size bs b))\<^sup>2) (np_unique bs))
      = int (sum_list (map (\<lambda>b. batch_size bs b * (batch_size bs b - 1)) (np_unique bs)))
        + int (sum_list (map (batch_size bs) (np_unique bs)))"
    unfolding sq by (simp only: sum_list_addf int_sum_list_map)
  then have "foldl (\<lambda>c b. c + (int (batch_size bs b))\<^sup>2) 0 (np_unique bs) - int (length bs)
      = 2 * int (length (filter (equal_ids bs) (upper_pairs (length bs))))"
    unfolding foldl_add sum_batch_sizes twice_same_pairs[symmetric] by simp
  then show ?thesis
    unfolding edge_count_def by (simp add: int_half_def)
qed

lemma fill_loop:
  assumes "k + length (filter (equal_ids bs) ps) \<le> length ret"
  shows "foldE (fill_step bs) (ret, k) ps =
     Inr (take k ret @ map Some (filter (equal_ids bs) ps) @ drop (k + length (filter (equal_ids bs) ps)) ret,
          k + length (filter (equal_ids bs) ps))"
  using assms
proof (induction ps arbitrary: ret k)
  case Nil
  then show ?case by simp
next
  case (Cons e ps)
  show ?case
  proof (cases "bs ! fst e = bs ! snd e")
    case True
    with Cons.prems have k: "k < length ret" and r: "Suc k + length (filter (equal_ids bs) ps) \<le> length (ret[k := Some e])"
      by simp_all
    have "take (Suc k) (ret[k := Some e]) = take k ret @ [Some e]"
      using k by (simp add: take_Suc_conv_app_nth)
    with True k Cons.IH[OF r] show ?thesis
      by (simp add: fill_step_def setitem_def)
  next
    case False
    with Cons show ?thesis by (simp add: fill_step_def)
  qed
qed

lemma contents_map_Some: "contents (map Some xs) = Inr xs"
  by (induction xs) auto

lemma complete_graph_no_threshold:
  "complete_graph bs dm (- 1) =
     Inr (transposed (add_reciprocal (filter (equal_ids bs) (upper_pairs (length bs)))))"
proof (cases "edge_count bs = 0")
  case True
  then have "filter (equal_ids bs) (upper_pairs (length bs)) = []"
    by (simp add: edge_count_eq)
  with True show ?thesis
    by (simp add: complete_graph_def transposed_def add_reciprocal_def reversed_cols_def)
next
  case False
  let ?P = "filter (equal_ids bs) (upper_pairs (length bs))"
  have n: "nat (edge_count bs) = length ?P" and pos: "\<not> edge_count bs < 0"
    by (simp_all add: edge_count_eq)
  have "foldE (fill_step bs) (np_empty (length ?P), 0) (upper_pairs (length bs)) = Inr (map Some ?P, length ?P)"
    using fill_loop[of 0 bs "upper_pairs (length bs)" "np_empty (length ?P)"]
    by (simp add: np_empty_def)
  with False pos show ?thesis
    by (simp add: complete_graph_def n contents_map_Some prune_def)
qed

lemma distinct_upper_pairs: "distinct (upper_pairs n)"
proof (induction n)
  case 0
  then show ?case by (simp add: upper_pairs_def)
next
  case (Suc n)
  have "inj_on (\<lambda>e::nat \<times> nat. (Suc (fst e), Suc (snd e))) (set (upper_pairs n))"
    by (auto simp: inj_on_def prod_eq_iff)
  then have "distinct (map (\<lambda>e. (Suc (fst e), Suc (snd e))) (upper_pairs n))"
    using Suc by (simp add: distinct_map)
  moreover have "distinct (map (Pair (0::nat)) [1..<Suc n])"
    by (simp add: distinct_map inj_on_def del: upt_Suc)
  ultimately show ?case
    unfolding upper_pairs_Suc by (auto simp del: upt_Suc)
qed

lemma distinct_add_reciprocal:
  fixes ps :: "(nat \<times> nat) list"
  assumes "distinct ps" "\<forall>e \<in> set ps. fst e < snd e"
  shows "distinct (add_reciprocal ps)"
proof -
  have "inj_on (\<lambda>e::nat \<times> nat. (snd e, fst e)) (set ps)"
    by (auto simp: inj_on_def prod_eq_iff)
  then have "distinct (reversed_cols ps)"
    using assms(1) by (simp add: reversed_cols_def distinct_map)
  moreover have "set ps \<inter> set (reversed_cols ps) = {}"
  proof (rule ccontr)
    assume "set ps \<inter> set (reversed_cols ps) \<noteq> {}"
    then obtain e e' where "e \<in> set ps" "e' \<in> set ps" "e = (snd e', fst e')"
      by (auto simp: reversed_cols_def)
    with assms(2) have "fst e < snd e" "snd e < fst e" by auto
    then show False by simp
  qed
  ultimately show ?thesis
    using assms(1) by (simp add: add_reciprocal_def)
qed

lemma length_filter_reversed:
  "length (filter (\<lambda>e. bs ! fst e = b \<and> bs ! snd e = b) (reversed_cols ps))
     = length (filter (\<lambda>e. bs ! fst e = b \<and> bs ! snd e = b) ps)"
proof -
  have "filter ((\<lambda>e. bs ! fst e = b \<and> bs ! snd e = b) \<circ> (\<lambda>e. (snd e, fst e))) ps
      = filter (\<lambda>e. bs ! fst e = b \<and> bs ! snd e = b) ps"
    by (intro filter_cong) auto
  then show ?thesis
    by (simp add: reversed_cols_def filter_map)
qed

lemma same_pairs_of_batch:
  "filter (\<lambda>e. bs ! fst e = b \<and> bs ! snd e = b) (filter (equal_ids bs) ps)
     = filter (\<lambda>e. bs ! fst e = b \<and> bs ! snd e = b) ps"
  by (induction ps) auto

text \<open>
  C8.  With no threshold given (\<open>max_dist\<close> left at -1), the complete-graph strategy
  returns, for every batch-id array, a matrix without repeated edges that joins exactly
  the ordered pairs of different clusters of one batch: for each batch of \<open>m\<close> clusters
  there are \<open>m(m-1)\<close> edges among its clusters, and the total number of edges is the sum
  of \<open>m(m-1)\<close> over the batches.
\<close>

theorem complete_graph_edge_count:
  "\<exists>M. complete_graph batch_ids dist_mat (- 1) = Inr M \<and>
        distinct (edges_of M) \<and>
        set (edges_of M) = {(i, j). i < length batch_ids \<and> j < length batch_ids \<and> i \<noteq> j \<and>
                                    batch_ids ! i = batch_ids ! j} \<and>
        (\<forall>b. length (batch_edges batch_ids M b)
               = batch_size batch_ids b * (batch_size batch_ids b - 1)) \<and>
        length (edges_of M)
          = (\<Sum>b\<leftarrow>np_unique batch_ids. batch_size batch_ids b * (batch_size batch_ids b - 1))"
proof -
  let ?P = "filter (equal_ids batch_ids) (upper_pairs (length batch_ids))"
  let ?M = "transposed (add_reciprocal ?P)"
  have r: "complete_graph batch_ids dist_mat (- 1) = Inr ?M"
    by (rule complete_graph_no_threshold)
  have d: "distinct (edges_of ?M)"
    using distinct_add_reciprocal[of ?P] by (auto simp: distinct_upper_pairs set_upper_pairs)
  have s: "set (edges_of ?M) = {(i, j). i < length batch_ids \<and> j < length batch_ids \<and> i \<noteq> j \<and>
                                    batch_ids ! i = batch_ids ! j}"
    by (auto simp: set_add_reciprocal set_upper_pairs)
  have b: "length (batch_edges batch_ids ?M b) = batch_size batch_ids b * (batch_size batch_ids b - 1)" for b
  proof -
    have "length (batch_edges batch_ids ?M b)
        = 2 * length (filter (\<lambda>e. batch_ids ! fst e = b \<and> batch_ids ! snd e = b) ?P)"
      unfolding batch_edges_def edges_of_transposed add_reciprocal_def filter_append length_append
        length_filter_reversed by simp
    also have "\<dots> = 2 * length (filter (\<lambda>e. batch_ids ! fst e = b \<and> batch_ids ! snd e = b)
                         (upper_pairs (length batch_ids)))"
      unfolding same_pairs_of_batch ..
    finally show ?thesis
      unfolding pairs_of_batch .
  qed
  have l: "length (edges_of ?M)
      = (\<Sum>b\<leftarrow>np_unique batch_ids. batch_size batch_ids b * (batch_size batch_ids b - 1))"
  proof -
    have "length (edges_of ?M) = 2 * length ?P"
      by (simp add: add_reciprocal_def reversed_cols_def)
    then show ?thesis
      by (simp only: twice_same_pairs)
  qed
  from r d s b l show ?thesis by blast
qed

text \<open>Four clusters, the first three in one batch: six edges among them, none at cluster 3.\<close>

lemma complete_graph_four_clusters: "complete_graph [0, 0, 0, 1] None (- 1) = Inr [[0, 0, 1, 1, 2, 2], [1, 2, 2, 0, 0, 1]]"
  by code_simp

theorem complete_graph_edge_count_witness:
  "length (edges_of [[0, 0, 1, 1, 2, 2], [1, 2, 2, 0, 0, 1::nat]]) = 3 * 2 + 1 * 0 \<and>
   length (batch_edges [0, 0, 0, 1] [[0, 0, 1, 1, 2, 2], [1, 2, 2, 0, 0, 1]] 0) = 3 * 2 \<and>
   length (batch_edges [0, 0, 0, 1] [[0, 0, 1, 1, 2, 2], [1, 2, 2, 0, 0, 1]] 1) = 1 * 0"
proof -
  have u: "np_unique [0, 0, 0, 1] = [0, 1]" by (simp add: np_unique_def)
  have s0: "batch_size [0, 0, 0, 1] 0 = 3" and s1: "batch_size [0, 0, 0, 1] 1 = 1"
    by (simp_all add: batch_size_def)
  from complete_graph_edge_count[of "[0, 0, 0, 1]" None] show ?thesis
    unfolding complete_graph_four_clusters u by (auto simp: s0 s1)
qed

subsection \<open>_inter_cluster_distance on a single thread\<close>

text \<open>
  When the iterations of the outer loop take effect in increasing order, every entry
  \<open>dist_mat[j,i]\<close> that iteration \<open>i\<close> copies has been written by iteration \<open>j < i\<close>,
  and the function returns the documented matrix on every well-formed input.
\<close>

lemma vsub_sym_norm: "norm2 (vsub a b) = norm2 (vsub b a)"
proof -
  have "map (\<lambda>x. x\<^sup>2) (vsub a b) = map (\<lambda>x. x\<^sup>2) (vsub b a)"
  proof (induction a arbitrary: b)
    case Nil
    then show ?case by (simp add: vsub_def)
  next
    case (Cons x a)
    then show ?case by (cases b) (simp_all add: vsub_def power2_commute)
  qed
  then show ?thesis by (simp add: norm2_def)
qed

lemma voxel_distances_sym: "voxel_distances voxels clusts i j = voxel_distances voxels clusts j i"
  unfolding voxel_distances_def
  by (auto simp: image_iff vsub_sym_norm) (metis vsub_sym_norm)+

lemma expected_entry_sym:
  "expected_entry voxels clusts bs i j = expected_entry voxels clusts bs j i"
  using voxel_distances_sym[of voxels clusts i j] by (auto simp: expected_entry_def)

lemma take_rows_ok:
  "\<forall>v \<in> set idx. v < length data \<Longrightarrow> take_rows data idx = Inr (map (nth data) idx)"
  unfolding take_rows_def by (induction idx) (auto simp: getitem_def)

lemma set_concat_cdist:
  "set (concat (cdist_nb (map (nth voxels) c1) (map (nth voxels) c2)))
     = (\<lambda>p. norm2 (vsub (voxels ! fst p) (voxels ! snd p))) ` (set c1 \<times> set c2)"
  by (force simp: cdist_nb_def image_iff)

lemma icd_cell_ok:
  assumes wf: "well_formed voxels clusts bs" and i: "i < length bs" and j: "j < length bs"
  shows "icd_cell voxels clusts bs i D j =
     Inr (if bs ! i = bs ! j \<and> i \<noteq> j
          then mat_set D i j (if i < j then expected_entry voxels clusts bs i j else D ! j ! i)
          else D)"
proof (cases "bs ! i = bs ! j \<and> i < j")
  case True
  from wf i j have ci: "clusts ! i \<noteq> []" "\<forall>v \<in> set (clusts ! i). v < length voxels"
    and cj: "clusts ! j \<noteq> []" "\<forall>v \<in> set (clusts ! j). v < length voxels"
    and l: "i < length clusts" "j < length clusts"
    by (auto simp: well_formed_def)
  have ne: "concat (cdist_nb (map (nth voxels) (clusts ! i)) (map (nth voxels) (clusts ! j))) \<noteq> []"
    using ci(1) cj(1) by (cases "clusts ! i"; cases "clusts ! j") (auto simp: cdist_nb_def)
  have m: "np_min (concat (cdist_nb (map (nth voxels) (clusts ! i)) (map (nth voxels) (clusts ! j))))
      = Inr (Min (voxel_distances voxels clusts i j))"
    unfolding np_min_def set_concat_cdist voxel_distances_def using ne by simp
  show ?thesis
    using True l
    by (simp add: icd_cell_def getitem_def take_rows_ok[OF ci(2)] take_rows_ok[OF cj(2)] m
        expected_entry_def)
next
  case False
  then show ?thesis by (auto simp: icd_cell_def)
qed

lemma foldE_append:
  "foldE f s (xs @ ys) = bindE (foldE f s xs) (\<lambda>t. foldE f t ys)"
  by (induction xs arbitrary: s) (auto simp: bindE_def split: sum.splits)

lemma icd_row_prefix:
  assumes wf: "well_formed voxels clusts bs" and i: "i < length bs"
    and shape: "length D = length bs" "length (D ! i) = length bs"
    and k: "k \<le> length bs"
  shows "foldE (icd_cell voxels clusts bs i) D [0..<k] =
     Inr (D[i := map (\<lambda>j. if j < k then row_entry voxels clusts bs i D j else D ! i ! j)
                   [0..<length bs]])"
  using k
proof (induction k)
  case 0
  have "map (\<lambda>j. D ! i ! j) [0..<length bs] = D ! i"
    using shape(2) by (metis map_nth)
  then show ?case by simp
next
  case (Suc k)
  let ?row = "\<lambda>k. map (\<lambda>j. if j < k then row_entry voxels clusts bs i D j else D ! i ! j) [0..<length bs]"
  let ?D' = "D[i := ?row k]"
  from Suc.prems have kl: "k < length bs" and k': "k \<le> length bs" by simp_all
  have il: "i < length D" using i shape(1) by simp
  have upd: "?row (Suc k) = (?row k)[k := row_entry voxels clusts bs i D k]"
    using kl by (intro nth_equalityI) (auto simp: nth_list_update)
  have other: "?D' ! k ! i = D ! k ! i" if "i \<noteq> k"
    using that by simp
  have cell: "icd_cell voxels clusts bs i ?D' k = Inr (D[i := ?row (Suc k)])"
  proof (cases "bs ! i = bs ! k \<and> i \<noteq> k")
    case True
    then have "row_entry voxels clusts bs i D k
        = (if i < k then expected_entry voxels clusts bs i k else ?D' ! k ! i)"
      using other by (simp add: row_entry_def)
    then show ?thesis
      using True il unfolding icd_cell_ok[OF wf i kl] upd
      by (simp add: mat_set_def)
  next
    case False
    then have "row_entry voxels clusts bs i D k = D ! i ! k"
      by (auto simp: row_entry_def)
    then have "(?row k)[k := row_entry voxels clusts bs i D k] = ?row k"
      using kl by (intro nth_equalityI) (auto simp: nth_list_update)
    with False show ?thesis
      unfolding icd_cell_ok[OF wf i kl] upd by auto
  qed
  show ?case
    using Suc.IH[OF k'] cell by (simp add: foldE_append del: upt_Suc add: upt_Suc_append)
qed

lemma icd_iteration_ok:
  assumes wf: "well_formed voxels clusts bs" and i: "i < length bs"
    and shape: "length D = length bs" "length (D ! i) = length bs"
  shows "icd_iteration voxels clusts bs D i =
     Inr (D[i := map (row_entry voxels clusts bs i D) [0..<length bs]])"
proof -
  have "map (\<lambda>j. if j < length bs then row_entry voxels clusts bs i D j else D ! i ! j) [0..<length bs]
      = map (row_entry voxels clusts bs i D) [0..<length bs]"
    by (intro map_cong) auto
  with icd_row_prefix[OF wf i shape, of "length bs"] show ?thesis
    by (simp add: icd_iteration_def)
qed

lemma icd_rows_prefix:
  assumes wf: "well_formed voxels clusts bs" and k: "k \<le> length bs"
  shows "foldE (icd_iteration voxels clusts bs) (replicate (length bs) (replicate (length bs) 0)) [0..<k]
     = Inr (partial_matrix voxels clusts bs k)"
  using k
proof (induction k)
  case 0
  have "partial_matrix voxels clusts bs 0 = replicate (length bs) (replicate (length bs) 0)"
    by (simp add: partial_matrix_def map_replicate_const)
  then show ?case by simp
next
  case (Suc k)
  let ?M = "partial_matrix voxels clusts bs k"
  from Suc.prems have kl: "k < length bs" and k': "k \<le> length bs" by simp_all
  have shape: "length ?M = length bs" "length (?M ! k) = length bs"
    using kl by (simp_all add: partial_matrix_def)
  have entry: "row_entry voxels clusts bs k ?M j = expected_entry voxels clusts bs k j" if "j < length bs" for j
  proof (cases "bs ! k = bs ! j \<and> k \<noteq> j")
    case True
    show ?thesis
    proof (cases "k < j")
      case True
      with \<open>bs ! k = bs ! j \<and> k \<noteq> j\<close> show ?thesis by (simp add: row_entry_def)
    next
      case False
      with True have "j < k" by simp
      then have "?M ! j ! k = expected_entry voxels clusts bs j k"
        using kl that by (simp add: partial_matrix_def)
      with True False show ?thesis
        by (simp add: row_entry_def expected_entry_sym[of voxels clusts bs k j])
    qed
  next
    case False
    then have "row_entry voxels clusts bs k ?M j = ?M ! k ! j"
      by (auto simp: row_entry_def)
    also have "\<dots> = 0" using kl that by (simp add: partial_matrix_def)
    also have "\<dots> = expected_entry voxels clusts bs k j"
      using False by (auto simp: expected_entry_def)
    finally show ?thesis .
  qed
  have row: "map (row_entry voxels clusts bs k ?M) [0..<length bs]
      = map (expected_entry voxels clusts bs k) [0..<length bs]"
    by (intro map_cong) (auto simp: entry)
  have "?M[k := map (expected_entry voxels clusts bs k) [0..<length bs]]
      = partial_matrix voxels clusts bs (Suc k)"
    unfolding partial_matrix_def using kl by (intro nth_equalityI) (auto simp: nth_list_update)
  then have "icd_iteration voxels clusts bs ?M k = Inr (partial_matrix voxels clusts bs (Suc k))"
    using icd_iteration_ok[OF wf kl shape] row by simp
  then show ?case
    using Suc.IH[OF k'] by (simp add: foldE_append del: upt_Suc add: upt_Suc_append)
qed

lemma inter_cluster_distance_sequential:
  assumes "well_formed voxels clusts bs"
  shows "u_inter_cluster_distance [0..<length bs] voxels clusts bs
     = Inr (expected_matrix voxels clusts bs)"
proof -
  have "partial_matrix voxels clusts bs (length bs) = expected_matrix voxels clusts bs"
    unfolding partial_matrix_def expected_matrix_def by (intro map_cong) auto
  with icd_rows_prefix[OF assms, of "length bs"] show ?thesis
    by (simp add: u_inter_cluster_distance_def)
qed

lemma expected_matrix_sym:
  "i < length bs \<Longrightarrow> j < length bs \<Longrightarrow>
     expected_matrix voxels clusts bs ! i ! j = expected_matrix voxels clusts bs ! j ! i"
  by (simp add: expected_matrix_def expected_entry_sym[of voxels clusts bs i j])


text \<open>An empty cluster in a batch of two: \<open>np.min\<close> has nothing to reduce.\<close>

lemma inter_cluster_distance_empty_cluster:
  "u_inter_cluster_distance [0, 1] [[0, 0, 0], [1, 0, 0]] [[0], []] [0, 0]
     = Inl (ValueError ''zero-size array'')"
  by (simp add: u_inter_cluster_distance_def icd_iteration_def icd_cell_def take_rows_def
      getitem_def np_min_def cdist_nb_def upt_rec numeral_2_eq_2)

end
